theory Spec2Isabelle
  imports Complex_Main "HOL-Library.Sublist" "HOL-Library.Word"
begin

chapter \<open>The program\<close>

section \<open>JavaScript string primitives\<close>

text \<open>
  A JavaScript string is a sequence of code units. The model uses \<open>string\<close>, so it covers
  the code units below 256; in that range the white space of \<open>String.prototype.trim\<close> and of
  the regular-expression class \<open>\s\<close> is TAB, LF, VT, FF, CR, SPACE and NBSP, and the line
  terminators that \<open>.\<close> does not match are LF and CR.
\<close>

definition is_js_space :: "char \<Rightarrow> bool" where
  "is_js_space c =
     (c \<in> set [CHR 0x09, CHR 0x0A, CHR 0x0B, CHR 0x0C, CHR 0x0D, CHR '' '', CHR 0xA0])"

definition is_line_terminator :: "char \<Rightarrow> bool" where
  "is_line_terminator c = (c = CHR 0x0A \<or> c = CHR 0x0D)"

text \<open>\<open>s.trim()\<close>; a string is truthy after trimming when \<open>js_trim s \<noteq> []\<close>.\<close>

definition js_trim :: "string \<Rightarrow> string" where
  "js_trim s = rev (dropWhile is_js_space (rev (dropWhile is_js_space s)))"

text \<open>\<open>s.trim().startsWith('{')\<close>\<close>

definition looks_like_json :: "string \<Rightarrow> bool" where
  "looks_like_json s = (case js_trim s of [] \<Rightarrow> False | c # _ \<Rightarrow> c = CHR ''{'')"

text \<open>
  \<open>s.split(sep)[0]\<close> for a non-empty separator string: the text before the first
  occurrence of \<open>sep\<close>, the whole of \<open>s\<close> when there is none.
\<close>

fun before_sep :: "string \<Rightarrow> string \<Rightarrow> string" where
  "before_sep sep [] = []"
| "before_sep sep (c # cs) = (if prefix sep (c # cs) then [] else c # before_sep sep cs)"


section \<open>Transcript coordinator: \<open>useTranscription\<close>\<close>

record TranscriptMessage =
  transcript :: string
  isFinal :: bool

text \<open>
  The hook keeps one string. \<open>handleTranscriptMessage\<close> is the functional update it
  passes to \<open>setTranscript\<close>: \<open>prev\<close> is the state before, the result the state after.
\<close>

definition handleTranscriptMessage :: "TranscriptMessage \<Rightarrow> string \<Rightarrow> string" where
  "handleTranscriptMessage message prev =
     (if isFinal message then
        (if prev \<noteq> [] then prev @ '' '' @ transcript message else transcript message)
      else
        (let baseTranscript = before_sep '' [interim]'' prev
         in baseTranscript @ '' [interim] '' @ transcript message))"

text \<open>The updates are applied in the order in which the fragments arrive.\<close>

definition handleTranscriptMessages :: "string \<Rightarrow> TranscriptMessage list \<Rightarrow> string" where
  "handleTranscriptMessages prev ms = foldl (\<lambda>t m. handleTranscriptMessage m t) prev ms"

text \<open>
  \<open>transcript.replace(/ \[interim\].*$/, '')\<close>: the leftmost place where the marker
  starts and no line terminator follows up to the end of the string is where the text
  is cut; without such a place the string is returned as it is.
\<close>

fun transcriptToSummarize :: "string \<Rightarrow> string" where
  "transcriptToSummarize [] = []"
| "transcriptToSummarize (c # cs) =
     (if prefix '' [interim]'' (c # cs) \<and> \<not> list_ex is_line_terminator (drop 10 (c # cs))
      then [] else c # transcriptToSummarize cs)"


section \<open>Summarization scheduler: \<open>useSummaries\<close>\<close>

record SummaryItem =
  item_id :: string
  summary :: string
  timestamp :: string

record SummaryResponse =
  response_summary :: string
  response_timestamp :: string

text \<open>The state of the hook: four state variables and the ref \<open>lastTranscriptRef\<close>.\<close>

record summaries =
  currentSummary :: "string option"
  summaryHistory :: "SummaryItem list"
  isLoading :: bool
  error :: "string option"
  lastTranscriptRef :: string

definition summaries_init :: summaries where
  "summaries_init = \<lparr>currentSummary = None, summaryHistory = [], isLoading = False,
                      error = None, lastTranscriptRef = []\<rparr>"

text \<open>
  \<open>generateSummary\<close> is asynchronous. Its synchronous part runs up to the \<open>await\<close> and
  either returns early or issues the request (the first component); the continuation is
  \<open>generateSummary_then\<close> when the request succeeds and \<open>generateSummary_catch\<close> when it
  fails, each followed by the \<open>finally\<close> block. \<open>now\<close> is \<open>Date.now().toString()\<close>,
  \<open>err_message\<close> is \<open>err.message\<close>.
\<close>

definition generateSummary_start :: "string \<Rightarrow> summaries \<Rightarrow> string option \<times> summaries" where
  "generateSummary_start text s =
     (if text = [] \<or> js_trim text = [] then (None, s)
      else (Some text, s\<lparr>isLoading := True, error := None\<rparr>))"

definition generateSummary_then :: "string \<Rightarrow> SummaryResponse \<Rightarrow> summaries \<Rightarrow> summaries" where
  "generateSummary_then now response s =
     (let newSummaryItem = \<lparr>item_id = now, summary = response_summary response,
                              timestamp = response_timestamp response\<rparr>
      in s\<lparr>currentSummary := Some (response_summary response),
            summaryHistory := newSummaryItem # summaryHistory s,
            lastTranscriptRef := [],
            isLoading := False\<rparr>)"

definition generateSummary_catch :: "string option \<Rightarrow> summaries \<Rightarrow> summaries" where
  "generateSummary_catch err_message s =
     s\<lparr>error := Some (case err_message of
                         Some m \<Rightarrow> if m \<noteq> [] then m else ''Failed to generate summary''
                       | None \<Rightarrow> ''Failed to generate summary''),
        isLoading := False\<rparr>"

text \<open>
  The callback of \<open>setInterval\<close>; \<open>transcript_now\<close> is the transcript the effect closed
  over. The ref is assigned right after the call of \<open>generateSummary\<close>, before its
  continuation can run.
\<close>

definition interval_callback :: "string \<Rightarrow> summaries \<Rightarrow> string option \<times> summaries" where
  "interval_callback transcript_now s =
     (let t = transcriptToSummarize transcript_now
      in if js_trim t \<noteq> [] \<and> t \<noteq> lastTranscriptRef s then
           (let (request, s') = generateSummary_start t s
            in (request, s'\<lparr>lastTranscriptRef := t\<rparr>))
         else (None, s))"

text \<open>The part of the effect that runs at once while recording.\<close>

definition effect_run :: "string \<Rightarrow> summaries \<Rightarrow> string option \<times> summaries" where
  "effect_run transcript_now s =
     (if transcript_now \<noteq> [] \<and> transcript_now \<noteq> lastTranscriptRef s then
        (let t = transcriptToSummarize transcript_now
         in if js_trim t \<noteq> [] then
              (let (request, s') = generateSummary_start t s
               in (request, s'\<lparr>lastTranscriptRef := transcript_now\<rparr>))
            else (None, s))
      else (None, s))"


section \<open>Streaming client: \<open>DeepgramService\<close>\<close>

text \<open>
  The fields of the service object. The socket and the timer are references, modelled by
  handles; \<open>None\<close> is \<open>null\<close>. The callback is an opaque value of type \<open>'cb\<close>.
\<close>

record 'cb DeepgramService =
  ws :: "nat option"
  isRecording :: bool
  transcriptCallback :: "'cb option"
  audioChunkCount :: nat
  testAudioInterval :: "nat option"
  useTestAudio :: bool
  audioRecordInitialized :: bool

text \<open>
  A parsed message, with the fields the handlers read; \<open>None\<close> is an absent field.
  \<open>msg_alternative_transcript\<close> is \<open>data.channel?.alternatives?.[0]?.transcript\<close>. The
  confidence is the value of the double the JSON number parsed to; comparing it with
  0.5 involves no rounding.
\<close>

record DeepgramData =
  msg_type :: "string option"
  msg_transcript :: "string option"
  msg_event :: "string option"
  msg_end_of_turn_confidence :: "real option"
  msg_is_final :: "bool option"
  msg_alternative_transcript :: "string option"

text \<open>
  \<open>data.event === 'EndOfTurn' || (data.event === 'Update' && data.end_of_turn_confidence > 0.5)\<close>
\<close>

definition turnInfo_isFinal :: "DeepgramData \<Rightarrow> bool" where
  "turnInfo_isFinal d =
     (msg_event d = Some ''EndOfTurn''
      \<or> (msg_event d = Some ''Update''
          \<and> (case msg_end_of_turn_confidence d of Some c \<Rightarrow> c > 0.5 | None \<Rightarrow> False)))"

text \<open>\<open>data.is_final || false\<close>\<close>

definition results_isFinal :: "DeepgramData \<Rightarrow> bool" where
  "results_isFinal d = (case msg_is_final d of Some b \<Rightarrow> b | None \<Rightarrow> False)"


text \<open>What a call does to the world outside the object.\<close>

datatype effect =
    ClearInterval nat
  | AudioRecordStop
  | WsClose nat nat string

definition stopTestAudio :: "'cb DeepgramService \<Rightarrow> effect list \<times> 'cb DeepgramService" where
  "stopTestAudio s =
     (case testAudioInterval s of
        Some h \<Rightarrow> ([ClearInterval h], s\<lparr>testAudioInterval := None\<rparr>)
      | None \<Rightarrow> ([], s))"

text \<open>
  \<open>AudioRecord.stop()\<close> is a native call inside a \<open>try\<close>; when it throws
  (\<open>stopThrows\<close>), the flag is not reset and the exception is swallowed.
\<close>

definition stopMicrophoneAudio ::
  "bool \<Rightarrow> 'cb DeepgramService \<Rightarrow> effect list \<times> 'cb DeepgramService" where
  "stopMicrophoneAudio stopThrows s =
     (if audioRecordInitialized s then
        (if stopThrows then ([AudioRecordStop], s)
         else ([AudioRecordStop], s\<lparr>audioRecordInitialized := False\<rparr>))
      else ([], s))"

text \<open>
  \<open>stopTranscription\<close>. When \<open>ws.close\<close> throws (\<open>closeThrows\<close>), the surrounding
  \<open>catch\<close> ends the call before the socket and the callback are cleared.
\<close>

definition stopTranscription ::
  "bool \<Rightarrow> bool \<Rightarrow> 'cb DeepgramService \<Rightarrow> effect list \<times> 'cb DeepgramService" where
  "stopTranscription stopThrows closeThrows s =
     (if \<not> isRecording s then ([], s)
      else
        let s1 = s\<lparr>isRecording := False\<rparr>;
            (e2, s2) = (if useTestAudio s1 then stopTestAudio s1
                        else stopMicrophoneAudio stopThrows s1)
        in case ws s2 of
             Some sock \<Rightarrow>
               if closeThrows then (e2 @ [WsClose sock 1000 ''Normal closure''], s2)
               else (e2 @ [WsClose sock 1000 ''Normal closure''],
                     s2\<lparr>ws := None, transcriptCallback := None\<rparr>)
           | None \<Rightarrow> (e2, s2\<lparr>transcriptCallback := None\<rparr>))"


section \<open>Server: the sentence limit\<close>

definition is_terminal :: "char \<Rightarrow> bool" where
  "is_terminal c = (c = CHR ''.'' \<or> c = CHR ''!'' \<or> c = CHR ''?'')"

text \<open>
  The regular expression \<open>/[.!?]+\s+/\<close> tried at the start of a string: both runs are
  greedy, and a shorter run of punctuation cannot help, since what follows it is
  punctuation again. The result is the text after the match.
\<close>

fun match_delimiter :: "string \<Rightarrow> string option" where
  "match_delimiter [] = None"
| "match_delimiter (c # cs) =
     (if is_terminal c then
        (case dropWhile is_terminal cs of
           [] \<Rightarrow> None
         | x # r \<Rightarrow> if is_js_space x then Some (dropWhile is_js_space r) else None)
      else None)"

text \<open>
  \<open>text.split(/[.!?]+\s+/)\<close>: the matches are searched from left to right, each search
  starting where the match before ended; the pieces between them are returned, empty
  ones included.
\<close>

function split_sentences :: "string \<Rightarrow> string list" where
  "split_sentences [] = [[]]"
| "split_sentences (c # cs) =
     (case match_delimiter (c # cs) of
        Some rest \<Rightarrow> [] # split_sentences rest
      | None \<Rightarrow> (case split_sentences cs of
                   p # ps \<Rightarrow> (c # p) # ps
                 | [] \<Rightarrow> [[c]]))"
  by pat_completeness auto
termination
proof (relation "measure length")
  show "wf (measure length)" by simp
next
  fix c :: char and cs rest :: string
  assume m: "match_delimiter (c # cs) = Some rest"
  then obtain x r where d: "dropWhile is_terminal cs = x # r"
    and rest: "rest = dropWhile is_js_space r"
    by (auto split: if_splits list.splits)
  have "length rest \<le> length r" using rest by (simp add: length_dropWhile_le)
  moreover have "length (x # r) \<le> length cs"
    using d [symmetric] by (simp add: length_dropWhile_le)
  ultimately show "(rest, c # cs) \<in> measure length" by simp
next
  fix c :: char and cs :: string
  show "(cs, c # cs) \<in> measure length" by simp
qed

text \<open>\<open>sentences.join('. ')\<close>\<close>

fun join_sentences :: "string list \<Rightarrow> string" where
  "join_sentences [] = []"
| "join_sentences [p] = p"
| "join_sentences (p # q # ps) = p @ ''. '' @ join_sentences (q # ps)"

text \<open>\<open>xs.slice(0, n)\<close> for an integer \<open>n\<close>; a negative \<open>n\<close> counts from the end.\<close>

definition slice_from_start :: "'a list \<Rightarrow> int \<Rightarrow> 'a list" where
  "slice_from_start xs n =
     (if 0 \<le> n then take (nat n) xs else take (length xs - nat (- n)) xs)"

text \<open>\<open>text.split(/[.!?]+\s+/).filter(s => s.trim())\<close>\<close>

definition sentences_of :: "string \<Rightarrow> string list" where
  "sentences_of text = filter (\<lambda>s. js_trim s \<noteq> []) (split_sentences text)"

definition enforceSentenceLimit :: "string \<Rightarrow> int \<Rightarrow> string" where
  "enforceSentenceLimit text maxSentences =
     (if text = [] then []
      else
        let sentences = sentences_of text
        in if int (length sentences) \<le> maxSentences then text
           else
             let truncated = slice_from_start sentences maxSentences;
                 result = join_sentences truncated
             in if result \<noteq> [] \<and> is_terminal (last result) then result
                else result @ ''.'')"


section \<open>Server: file transcription\<close>

record file_transcription =
  file_transcript :: string
  isComplete :: bool

text \<open>
  The \<open>message\<close> handler of the upstream socket in \<open>/transcribe-file\<close>. \<open>parsed\<close> is
  \<open>None\<close> for a frame that is not a JSON object; such a frame, and any frame on which
  the handler throws, leaves the two variables as they are.
\<close>

definition transcribe_file_on_message ::
  "DeepgramData option \<Rightarrow> file_transcription \<Rightarrow> file_transcription" where
  "transcribe_file_on_message parsed st =
     (case parsed of
        None \<Rightarrow> st
      | Some message \<Rightarrow>
          if msg_type message = Some ''TurnInfo'' \<and> msg_transcript message \<noteq> None then
            (case msg_transcript message of
               None \<Rightarrow> st
             | Some newTranscript \<Rightarrow>
                 if js_trim newTranscript \<noteq> [] then
                   (if turnInfo_isFinal message
                    then st\<lparr>file_transcript := newTranscript, isComplete := True\<rparr>
                    else st\<lparr>file_transcript := newTranscript\<rparr>)
                 else st)
          else if msg_type message = Some ''Results''
                  \<and> msg_alternative_transcript message \<noteq> None
                  \<and> msg_alternative_transcript message \<noteq> Some [] then
            (case msg_alternative_transcript message of
               None \<Rightarrow> st
             | Some newTranscript \<Rightarrow>
                 if js_trim newTranscript \<noteq> [] then
                   (if results_isFinal message
                    then st\<lparr>file_transcript := newTranscript, isComplete := True\<rparr>
                    else st\<lparr>file_transcript := newTranscript\<rparr>)
                 else st)
          else st)"

text \<open>
  The \<open>close\<close> handler: the response body (without its timestamp), \<open>None\<close> when a
  response has been sent before.
\<close>

definition transcribe_file_on_close ::
  "bool \<Rightarrow> file_transcription \<Rightarrow> TranscriptMessage option" where
  "transcribe_file_on_close headersSent st =
     (if \<not> headersSent then
        Some \<lparr>transcript = (if file_transcript st \<noteq> [] then file_transcript st
                              else ''No transcript received''),
              isFinal = isComplete st\<rparr>
      else None)"

text \<open>A run: the frames arrive, then the socket closes before anything else has answered.\<close>

definition transcribe_file :: "DeepgramData option list \<Rightarrow> TranscriptMessage option" where
  "transcribe_file ms =
     transcribe_file_on_close False
       (foldl (\<lambda>st m. transcribe_file_on_message m st)
          \<lparr>file_transcript = [], isComplete = False\<rparr> ms)"


section \<open>Server: the relay proxy\<close>

type_synonym byte = "8 word"

text \<open>\<open>Buffer.from(s)\<close>: the UTF-8 encoding, here of code units below 256.\<close>

definition utf8_unit :: "char \<Rightarrow> byte list" where
  "utf8_unit c =
     (let n = (of_char c :: nat)
      in if n < 128 then [word_of_nat n]
         else [word_of_nat (192 + n div 64), word_of_nat (128 + n mod 64)])"

definition utf8 :: "string \<Rightarrow> byte list" where
  "utf8 s = concat (map utf8_unit s)"

text \<open>
  \<open>Buffer.from(s, 'base64')\<close> belongs to the platform, not to the program, and the
  handler below takes it as a parameter. The examples instantiate the parameter with this
  decoder: characters outside the base64 alphabet are skipped, decoding ends at the
  first padding character, and every full group of four sextets gives three bytes.
\<close>

definition base64_value :: "char \<Rightarrow> nat option" where
  "base64_value c =
     (let n = (of_char c :: nat)
      in if 65 \<le> n \<and> n \<le> 90 then Some (n - 65)
         else if 97 \<le> n \<and> n \<le> 122 then Some (n - 71)
         else if 48 \<le> n \<and> n \<le> 57 then Some (n + 4)
         else if c = CHR ''+'' \<or> c = CHR ''-'' then Some 62
         else if c = CHR ''/'' \<or> c = CHR ''_'' then Some 63
         else None)"

fun base64_bytes :: "nat list \<Rightarrow> byte list" where
  "base64_bytes (a # b # c # d # r) =
     [word_of_nat (a * 4 + b div 16), word_of_nat ((b mod 16) * 16 + c div 4),
      word_of_nat ((c mod 4) * 64 + d)] @ base64_bytes r"
| "base64_bytes [a, b, c] =
     [word_of_nat (a * 4 + b div 16), word_of_nat ((b mod 16) * 16 + c div 4)]"
| "base64_bytes [a, b] = [word_of_nat (a * 4 + b div 16)]"
| "base64_bytes r = []"

definition base64_decode :: "string \<Rightarrow> byte list" where
  "base64_decode s =
     base64_bytes (List.map_filter base64_value (takeWhile (\<lambda>c. c \<noteq> CHR ''='') s))"

datatype ready_state = CONNECTING | OPEN | CLOSING | CLOSED

text \<open>
  What the \<open>message\<close> event of the socket library hands to a listener: a \<open>Buffer\<close>, a
  string, or another array of bytes (\<open>ArrayBuffer\<close>, \<open>Uint8Array\<close>), with the flag
  \<open>isBinary\<close>.
\<close>

datatype ws_data = Buffer "byte list" | Str string | ArrayLike "byte list"

fun bytes_of :: "ws_data \<Rightarrow> byte list" where
  "bytes_of (Buffer bs) = bs"
| "bytes_of (Str s) = utf8 s"
| "bytes_of (ArrayLike bs) = bs"

record frame =
  binary :: bool
  payload :: "byte list"

datatype proxy_action =
    ClientClose "nat option" "string option"
  | ClientSend frame
  | UpstreamConnect string string
  | UpstreamSend frame
  | UpstreamClose










text \<open>
  The listener for frames from the client. \<open>from_base64\<close> is the library's
  \<open>Buffer.from(s, 'base64')\<close>. A string passed to \<open>send\<close> without options goes out as
  a text frame whose payload is its encoding.
\<close>

definition clientWs_on_message ::
  "(string \<Rightarrow> byte list) \<Rightarrow> ready_state \<Rightarrow> ws_data \<Rightarrow> bool \<Rightarrow> proxy_action list" where
  "clientWs_on_message from_base64 deepgram_readyState data isBinary =
     (if deepgram_readyState = OPEN then
        (case data of
           Buffer bs \<Rightarrow> [UpstreamSend \<lparr>binary = True, payload = bs\<rparr>]
         | Str s \<Rightarrow>
             if isBinary then [UpstreamSend \<lparr>binary = True, payload = utf8 s\<rparr>]
             else if looks_like_json s then [UpstreamSend \<lparr>binary = False, payload = utf8 s\<rparr>]
             else [UpstreamSend \<lparr>binary = True, payload = from_base64 s\<rparr>]
         | ArrayLike bs \<Rightarrow> [UpstreamSend \<lparr>binary = True, payload = bs\<rparr>])
      else [])"

definition deepgramWs_on_message :: "ready_state \<Rightarrow> ws_data \<Rightarrow> bool \<Rightarrow> proxy_action list" where
  "deepgramWs_on_message client_readyState data isBinary =
     (if client_readyState = OPEN
      then [ClientSend \<lparr>binary = isBinary, payload = bytes_of data\<rparr>]
      else [])"



definition clientWs_on_close :: "ready_state \<Rightarrow> proxy_action list" where
  "clientWs_on_close deepgram_readyState =
     (if deepgram_readyState = OPEN then [UpstreamClose] else [])"


section \<open>Notions used to state the properties\<close>

text \<open>
  A piece of text is sealed when the delimiter expression matches nowhere in it, not even
  when the piece is followed by a full stop and a space.
\<close>

fun sealed :: "string \<Rightarrow> bool" where
  "sealed [] = True"
| "sealed (c # cs) = (match_delimiter (c # cs @ ''. '') = None \<and> sealed cs)"

text \<open>
  The text a frame carries as a transcript fragment: the transcript of a TurnInfo
  message, the first alternative of a Results message.
\<close>

definition fragment_text :: "DeepgramData option \<Rightarrow> string option" where
  "fragment_text parsed =
     (case parsed of
        None \<Rightarrow> None
      | Some message \<Rightarrow>
          if msg_type message = Some ''TurnInfo'' then msg_transcript message
          else if msg_type message = Some ''Results'' then msg_alternative_transcript message
          else None)"

text \<open>A fragment whose text is not blank, as the handler tests it with \<open>trim\<close>.\<close>

definition nonblank_fragment :: "DeepgramData option \<Rightarrow> string option" where
  "nonblank_fragment parsed =
     (case fragment_text parsed of
        Some t \<Rightarrow> if js_trim t \<noteq> [] then Some t else None
      | None \<Rightarrow> None)"

text \<open>A fragment with non-empty text, in the words of the specification.\<close>

definition nonempty_fragment :: "DeepgramData option \<Rightarrow> string option" where
  "nonempty_fragment parsed =
     (case fragment_text parsed of
        Some t \<Rightarrow> if t \<noteq> [] then Some t else None
      | None \<Rightarrow> None)"




definition turnInfo :: "string \<Rightarrow> string \<Rightarrow> real option \<Rightarrow> DeepgramData" where
  "turnInfo t e c =
     \<lparr>msg_type = Some ''TurnInfo'', msg_transcript = Some t, msg_event = Some e,
      msg_end_of_turn_confidence = c, msg_is_final = None,
      msg_alternative_transcript = None\<rparr>"


chapter \<open>Properties\<close>

section \<open>Transcript coordinator\<close>

lemma before_sep_prefix: "prefix (before_sep sep xs) xs"
  by (induction xs) auto

text \<open>
  Appending the separator after the text before its first occurrence does not create an
  earlier occurrence, when the first character of the separator does not occur again in it.
\<close>

lemma before_sep_append_sep:
  assumes "s0 \<notin> set r"
  shows "before_sep (s0 # r) (before_sep (s0 # r) xs @ (s0 # r) @ t) = before_sep (s0 # r) xs"
proof (induction xs)
  case Nil
  show ?case by simp
next
  case (Cons c cs)
  let ?sep = "s0 # r"
  let ?b = "before_sep ?sep cs"
  show ?case
  proof (cases "prefix ?sep (c # cs)")
    case True
    then show ?thesis by simp
  next
    case False
    have "\<not> prefix ?sep (c # ?b @ ?sep @ t)"
    proof
      assume p: "prefix ?sep (c # ?b @ ?sep @ t)"
      then have c: "c = s0" by simp
      from p have pr: "prefix r (?b @ ?sep @ t)" by auto
      show False
      proof (cases "length r \<le> length ?b")
        case True
        with pr have "prefix r ?b"
          by (metis prefix_length_prefix prefixI)
        then have "prefix r cs"
          using before_sep_prefix prefix_order.order_trans by blast
        with c False show False by simp
      next
        case False
        then have lt: "length ?b < length r" by simp
        from pr obtain z where z: "?b @ ?sep @ t = r @ z" by (auto simp: prefix_def)
        have "(?b @ ?sep @ t) ! length ?b = s0" by (simp add: nth_append)
        with z have "(r @ z) ! length ?b = s0" by simp
        with lt have "r ! length ?b = s0" by (simp add: nth_append)
        with lt have "s0 \<in> set r" by (metis nth_mem)
        with assms show False by simp
      qed
    qed
    with False Cons show ?thesis by simp
  qed
qed

lemma base_after_interim:
  "before_sep '' [interim]'' (before_sep '' [interim]'' prev @ '' [interim] '' @ t)
   = before_sep '' [interim]'' prev"
  using before_sep_append_sep [of "CHR '' ''" "''[interim]''" prev "'' '' @ t"]
  by simp

lemma interim_step:
  "\<not> isFinal m \<Longrightarrow> handleTranscriptMessage m prev
     = before_sep '' [interim]'' prev @ '' [interim] '' @ transcript m"
  by (simp add: handleTranscriptMessage_def)

text \<open>
  C6. The hook keeps the committed text and the pending text in one string: the committed
  text is what stands before the marker \<open>[interim]\<close> (the hook reads it back as
  \<open>prev.split(' [interim]')[0]\<close>), the pending text is what follows the marker. While only
  interim fragments arrive, the committed text stays what it was, and after the last of
  them the string is the committed text, the marker, and the text of that last fragment
  alone.
\<close>

theorem interim_only_replaces_pending:
  assumes "\<forall>m \<in> set ms. \<not> isFinal m"
  shows "before_sep '' [interim]'' (handleTranscriptMessages prev ms)
           = before_sep '' [interim]'' prev
         \<and> (ms \<noteq> [] \<longrightarrow> handleTranscriptMessages prev ms
              = before_sep '' [interim]'' prev @ '' [interim] '' @ transcript (last ms))"
  using assms
proof (induction ms rule: rev_induct)
  case Nil
  show ?case by (simp add: handleTranscriptMessages_def)
next
  case (snoc m ms)
  then have ih: "before_sep '' [interim]'' (handleTranscriptMessages prev ms)
           = before_sep '' [interim]'' prev" and m: "\<not> isFinal m" by simp_all
  have step: "handleTranscriptMessages prev (ms @ [m])
      = before_sep '' [interim]'' prev @ '' [interim] '' @ transcript m"
    using ih m by (simp add: handleTranscriptMessages_def interim_step)
  show ?case unfolding step using base_after_interim [of prev "transcript m"] by simp
qed

theorem interim_only_replaces_pending_witness:
  "before_sep '' [interim]''
        (handleTranscriptMessages ''Good morning''
           [\<lparr>transcript = ''Hel'', isFinal = False\<rparr>,
            \<lparr>transcript = ''Hello wor'', isFinal = False\<rparr>]) = ''Good morning''
   \<and> handleTranscriptMessages ''Good morning''
        [\<lparr>transcript = ''Hel'', isFinal = False\<rparr>,
         \<lparr>transcript = ''Hello wor'', isFinal = False\<rparr>]
      = ''Good morning [interim] Hello wor''"
  using interim_only_replaces_pending
    [of "[\<lparr>transcript = ''Hel'', isFinal = False\<rparr>,
          \<lparr>transcript = ''Hello wor'', isFinal = False\<rparr>]" "''Good morning''"]
  by simp

text \<open>
  C1. An interim fragment \<open>Hello\<close> followed by the final fragment \<open>Hello world\<close>, from the
  empty transcript: the final branch appends to the string as it stands, marker and
  interim text included. The committed text, read as the hook itself reads it or as the
  scheduler reads it, is then empty and not \<open>Hello world\<close>, and text is left after the
  marker.
\<close>

theorem final_after_interim_keeps_marker:
  "handleTranscriptMessages []
     [\<lparr>transcript = ''Hello'', isFinal = False\<rparr>,
      \<lparr>transcript = ''Hello world'', isFinal = True\<rparr>] = '' [interim] Hello Hello world''
   \<and> before_sep '' [interim]'' '' [interim] Hello Hello world'' = []
   \<and> transcriptToSummarize '' [interim] Hello Hello world'' = []"
  by (simp add: handleTranscriptMessages_def handleTranscriptMessage_def is_line_terminator_def)


section \<open>Summarization scheduler\<close>

text \<open>
  C2, as stated, fails: the interval fires with the transcript \<open>hello\<close>, the request
  succeeds, and the interval fires again with the same transcript. The first fire issues
  a request for \<open>hello\<close>; after the success the baseline is the empty string, not
  \<open>hello\<close>; the second fire issues a request for \<open>hello\<close> again.
\<close>

theorem debounce_counterexample:
  "fst (interval_callback ''hello'' summaries_init) = Some ''hello''
   \<and> lastTranscriptRef (generateSummary_then ''1700000000000''
         \<lparr>response_summary = ''A greeting.'',
          response_timestamp = ''2024-01-01T00:00:00.000Z''\<rparr>
         (snd (interval_callback ''hello'' summaries_init))) = []
   \<and> fst (interval_callback ''hello''
        (generateSummary_then ''1700000000000''
         \<lparr>response_summary = ''A greeting.'',
          response_timestamp = ''2024-01-01T00:00:00.000Z''\<rparr>
         (snd (interval_callback ''hello'' summaries_init)))) = Some ''hello''"
  by (simp add: interval_callback_def generateSummary_start_def generateSummary_then_def
      summaries_init_def js_trim_def is_js_space_def Let_def)

lemma js_trim_Nil: "js_trim [] = []"
  by (simp add: js_trim_def)

lemma generateSummary_start_nonblank:
  "js_trim text \<noteq> [] \<Longrightarrow>
     generateSummary_start text s = (Some text, s\<lparr>isLoading := True, error := None\<rparr>)"
proof -
  assume nb: "js_trim text \<noteq> []"
  then have "text \<noteq> []" using js_trim_Nil by auto
  with nb show ?thesis by (simp add: generateSummary_start_def)
qed

lemma interval_callback_skips:
  "js_trim (transcriptToSummarize t) = [] \<or> transcriptToSummarize t = lastTranscriptRef s
     \<Longrightarrow> interval_callback t s = (None, s)"
  unfolding interval_callback_def Let_def by (simp (no_asm_simp)) blast

lemma interval_callback_issues:
  assumes "js_trim (transcriptToSummarize t) \<noteq> []"
    and "transcriptToSummarize t \<noteq> lastTranscriptRef s"
  shows "interval_callback t s =
           (Some (transcriptToSummarize t),
            s\<lparr>isLoading := True, error := None, lastTranscriptRef := transcriptToSummarize t\<rparr>)"
  unfolding interval_callback_def Let_def
  using assms by (simp add: generateSummary_start_nonblank)

lemma effect_run_skips:
  "t = [] \<or> t = lastTranscriptRef s \<or> js_trim (transcriptToSummarize t) = []
     \<Longrightarrow> effect_run t s = (None, s)"
  unfolding effect_run_def Let_def by (simp (no_asm_simp)) blast

text \<open>
  C2, amended. A fire of the interval issues no request and changes nothing when the
  committed transcript is blank or equals the baseline held in \<open>lastTranscriptRef\<close>;
  otherwise it issues a request for that text and makes the text the baseline at once.
  The run at the start of the effect issues no request when the transcript is empty,
  equals the baseline, or has a blank committed part. A successful summarization resets
  the baseline to the empty string; a failed one leaves the baseline as it is.
\<close>

theorem debounce_baseline:
  "(js_trim (transcriptToSummarize t) = [] \<or> transcriptToSummarize t = lastTranscriptRef s
      \<longrightarrow> interval_callback t s = (None, s))
   \<and> (js_trim (transcriptToSummarize t) \<noteq> [] \<and> transcriptToSummarize t \<noteq> lastTranscriptRef s
      \<longrightarrow> interval_callback t s =
           (Some (transcriptToSummarize t),
            s\<lparr>isLoading := True, error := None, lastTranscriptRef := transcriptToSummarize t\<rparr>))
   \<and> (t = [] \<or> t = lastTranscriptRef s \<or> js_trim (transcriptToSummarize t) = []
      \<longrightarrow> effect_run t s = (None, s))
   \<and> lastTranscriptRef (generateSummary_then now r s) = []
   \<and> lastTranscriptRef (generateSummary_catch e s) = lastTranscriptRef s"
proof (intro conjI impI)
  assume "js_trim (transcriptToSummarize t) = [] \<or> transcriptToSummarize t = lastTranscriptRef s"
  then show "interval_callback t s = (None, s)" by (rule interval_callback_skips)
next
  assume "js_trim (transcriptToSummarize t) \<noteq> [] \<and> transcriptToSummarize t \<noteq> lastTranscriptRef s"
  then show "interval_callback t s =
           (Some (transcriptToSummarize t),
            s\<lparr>isLoading := True, error := None, lastTranscriptRef := transcriptToSummarize t\<rparr>)"
    using interval_callback_issues by blast
next
  assume "t = [] \<or> t = lastTranscriptRef s \<or> js_trim (transcriptToSummarize t) = []"
  then show "effect_run t s = (None, s)" by (rule effect_run_skips)
next
  show "lastTranscriptRef (generateSummary_then now r s) = []"
    by (simp add: generateSummary_then_def)
next
  show "lastTranscriptRef (generateSummary_catch e s) = lastTranscriptRef s"
    by (simp add: generateSummary_catch_def)
qed

theorem debounce_baseline_witness:
  "transcriptToSummarize ''hello [interim] wor'' = ''hello''
   \<and> js_trim ''hello'' \<noteq> []
   \<and> ''hello'' \<noteq> lastTranscriptRef summaries_init
   \<and> interval_callback ''hello [interim] wor'' summaries_init
       = (Some ''hello'', summaries_init\<lparr>isLoading := True, error := None,
                                           lastTranscriptRef := ''hello''\<rparr>)
   \<and> transcriptToSummarize ''hello'' = lastTranscriptRef (summaries_init\<lparr>lastTranscriptRef := ''hello''\<rparr>)
   \<and> interval_callback ''hello'' (summaries_init\<lparr>lastTranscriptRef := ''hello''\<rparr>)
       = (None, summaries_init\<lparr>lastTranscriptRef := ''hello''\<rparr>)
   \<and> effect_run ''hello'' (summaries_init\<lparr>lastTranscriptRef := ''hello''\<rparr>)
       = (None, summaries_init\<lparr>lastTranscriptRef := ''hello''\<rparr>)"
  using debounce_baseline [of "''hello [interim] wor''" summaries_init]
    debounce_baseline [of "''hello''" "summaries_init\<lparr>lastTranscriptRef := ''hello''\<rparr>"]
  by (simp add: summaries_init_def js_trim_def is_js_space_def is_line_terminator_def)

text \<open>
  C9. The continuation of a failed request leaves the current summary and the history as
  they are and records an error state: a message that is not the empty string (which
  the program would take for no error), the message of the exception when it has one.
  So does the synchronous part of the call leave summary and history as they are,
  whether or not it issues the request. Only the continuation of a successful request
  changes the history, and it puts the new item in front.
\<close>

theorem failed_summary_keeps_history:
  "currentSummary (generateSummary_catch e s) = currentSummary s
   \<and> summaryHistory (generateSummary_catch e s) = summaryHistory s
   \<and> (\<exists>m. error (generateSummary_catch e s) = Some m \<and> m \<noteq> [])
   \<and> error (generateSummary_catch (Some (c # cs)) s) = Some (c # cs)
   \<and> error (generateSummary_catch None s) = Some ''Failed to generate summary''
   \<and> currentSummary (snd (generateSummary_start t s)) = currentSummary s
   \<and> summaryHistory (snd (generateSummary_start t s)) = summaryHistory s
   \<and> summaryHistory (generateSummary_then now r s)
       = \<lparr>item_id = now, summary = response_summary r, timestamp = response_timestamp r\<rparr>
         # summaryHistory s"
  by (simp add: generateSummary_catch_def generateSummary_start_def generateSummary_then_def
      split: option.splits)


section \<open>Streaming client\<close>







lemma stopTestAudio_isRecording:
  "isRecording (snd (stopTestAudio s)) = isRecording s"
  by (simp add: stopTestAudio_def split: option.splits)

lemma stopMicrophoneAudio_isRecording:
  "isRecording (snd (stopMicrophoneAudio t s)) = isRecording s"
  by (simp add: stopMicrophoneAudio_def)

lemma stopTranscription_not_recording:
  "\<not> isRecording (snd (stopTranscription a b s))"
proof (cases "isRecording s")
  case False
  then show ?thesis by (simp add: stopTranscription_def)
next
  case True
  let ?s1 = "s\<lparr>isRecording := False\<rparr>"
  let ?r = "if useTestAudio ?s1 then stopTestAudio ?s1 else stopMicrophoneAudio a ?s1"
  have r: "\<not> isRecording (snd ?r)"
    by (simp add: stopTestAudio_isRecording stopMicrophoneAudio_isRecording)
  obtain e2 s2 where eq: "?r = (e2, s2)" by (cases ?r)
  with r have "\<not> isRecording s2" by simp
  with True eq show ?thesis
    by (simp add: stopTranscription_def Let_def split: option.splits)
qed

text \<open>
  C8. Whatever the session state and whichever of the native calls throw, a second
  \<open>stopTranscription\<close> right after a first one leaves the session state (recording flag,
  socket, callback reference, audio source) exactly as the first call left it and has no
  effect outside the object; a call on a session that is not recording changes nothing
  and does nothing.
\<close>

theorem stopTranscription_idempotent:
  "snd (stopTranscription a' b' (snd (stopTranscription a b s))) = snd (stopTranscription a b s)
   \<and> fst (stopTranscription a' b' (snd (stopTranscription a b s))) = []
   \<and> (\<not> isRecording s \<longrightarrow> stopTranscription a b s = ([], s))"
proof -
  have "\<not> isRecording (snd (stopTranscription a b s))"
    by (rule stopTranscription_not_recording)
  then show ?thesis by (simp add: stopTranscription_def)
qed

theorem stopTranscription_idempotent_witness:
  "snd (stopTranscription False False (snd (stopTranscription False False
      \<lparr>ws = Some 7, isRecording = True, transcriptCallback = Some (1::nat),
       audioChunkCount = 12, testAudioInterval = None, useTestAudio = False,
       audioRecordInitialized = True\<rparr>)))
   = \<lparr>ws = None, isRecording = False, transcriptCallback = None,
      audioChunkCount = 12, testAudioInterval = None, useTestAudio = False,
      audioRecordInitialized = False\<rparr>
   \<and> fst (stopTranscription False False
      \<lparr>ws = Some 7, isRecording = True, transcriptCallback = Some (1::nat),
       audioChunkCount = 12, testAudioInterval = None, useTestAudio = False,
       audioRecordInitialized = True\<rparr>)
     = [AudioRecordStop, WsClose 7 1000 ''Normal closure'']
   \<and> \<not> isRecording \<lparr>ws = None, isRecording = False, transcriptCallback = None :: nat option,
      audioChunkCount = 12, testAudioInterval = None, useTestAudio = False,
      audioRecordInitialized = False\<rparr>
   \<and> stopTranscription False False \<lparr>ws = None, isRecording = False,
      transcriptCallback = None :: nat option,
      audioChunkCount = 12, testAudioInterval = None, useTestAudio = False,
      audioRecordInitialized = False\<rparr>
     = ([], \<lparr>ws = None, isRecording = False, transcriptCallback = None,
      audioChunkCount = 12, testAudioInterval = None, useTestAudio = False,
      audioRecordInitialized = False\<rparr>)"
  using stopTranscription_idempotent [of False False False False
      "\<lparr>ws = Some 7, isRecording = True, transcriptCallback = Some (1::nat),
       audioChunkCount = 12, testAudioInterval = None, useTestAudio = False,
       audioRecordInitialized = True\<rparr>"]
    stopTranscription_idempotent [of False False False False
      "\<lparr>ws = None, isRecording = False, transcriptCallback = None :: nat option,
       audioChunkCount = 12, testAudioInterval = None, useTestAudio = False,
       audioRecordInitialized = False\<rparr>"]
  by (simp add: stopTranscription_def stopMicrophoneAudio_def stopTestAudio_def)


section \<open>The sentence limit\<close>

lemma nonblank_iff: "js_trim s \<noteq> [] \<longleftrightarrow> (\<exists>c \<in> set s. \<not> is_js_space c)"
proof
  assume "js_trim s \<noteq> []"
  then show "\<exists>c \<in> set s. \<not> is_js_space c"
    by (auto simp: js_trim_def dest: set_dropWhileD)
next
  assume "\<exists>c \<in> set s. \<not> is_js_space c"
  then have ne: "dropWhile is_js_space s \<noteq> []" by (simp add: dropWhile_eq_Nil_conv)
  then have "\<not> is_js_space (hd (dropWhile is_js_space s))" by (rule hd_dropWhile)
  moreover from ne have "hd (dropWhile is_js_space s) \<in> set (rev (dropWhile is_js_space s))"
    by simp
  ultimately have "dropWhile is_js_space (rev (dropWhile is_js_space s)) \<noteq> []"
    unfolding dropWhile_eq_Nil_conv by blast
  then show "js_trim s \<noteq> []" by (simp add: js_trim_def)
qed

lemma match_delimiter_extend:
  assumes "match_delimiter (c # cs @ ''. '') = None"
  shows "match_delimiter (c # cs @ t) = None"
proof (cases "is_terminal c")
  case False
  then show ?thesis by simp
next
  case True
  show ?thesis
  proof (cases "\<forall>x \<in> set cs. is_terminal x")
    case True
    then have "dropWhile is_terminal (cs @ ''. '') = '' ''"
      by (simp add: dropWhile_append2 is_terminal_def)
    with assms \<open>is_terminal c\<close> show ?thesis by (simp add: is_js_space_def)
  next
    case False
    then obtain x where x: "x \<in> set cs" "\<not> is_terminal x" by blast
    then have ne: "dropWhile is_terminal cs \<noteq> []" by (auto simp: dropWhile_eq_Nil_conv)
    then obtain h r where hr: "dropWhile is_terminal cs = h # r" by (cases "dropWhile is_terminal cs") auto
    from x have a: "\<And>u. dropWhile is_terminal (cs @ u) = h # r @ u"
      by (simp add: dropWhile_append1 hr)
    from assms \<open>is_terminal c\<close> a [of "''. ''"] have "\<not> is_js_space h"
      by (auto split: if_splits)
    with \<open>is_terminal c\<close> a [of t] show ?thesis by simp
  qed
qed

lemma match_delimiter_dot_space:
  "match_delimiter (''. '' @ r) = Some (dropWhile is_js_space r)"
  by (simp add: is_terminal_def is_js_space_def)

lemma match_delimiter_seal:
  assumes "match_delimiter (c # p @ d) = None" and "match_delimiter d = Some rest"
  shows "match_delimiter (c # p @ ''. '') = None"
proof (cases "is_terminal c")
  case False
  then show ?thesis by simp
next
  case True
  from assms(2) obtain c' cs' x r' where d: "d = c' # cs'" and c': "is_terminal c'"
    and dw: "dropWhile is_terminal cs' = x # r'" and sx: "is_js_space x"
    by (cases d) (auto split: if_splits list.splits)
  show ?thesis
  proof (cases "\<forall>y \<in> set p. is_terminal y")
    case True
    then have "dropWhile is_terminal (p @ d) = x # r'"
      using d c' dw by (simp add: dropWhile_append2)
    with assms(1) \<open>is_terminal c\<close> sx show ?thesis by simp
  next
    case False
    then obtain y where y: "y \<in> set p" "\<not> is_terminal y" by blast
    then have ne: "dropWhile is_terminal p \<noteq> []" by (auto simp: dropWhile_eq_Nil_conv)
    then obtain h r where hr: "dropWhile is_terminal p = h # r" by (cases "dropWhile is_terminal p") auto
    from y have a: "\<And>u. dropWhile is_terminal (p @ u) = h # r @ u"
      by (simp add: dropWhile_append1 hr)
    from assms(1) \<open>is_terminal c\<close> a [of d] have "\<not> is_js_space h"
      by (auto split: if_splits)
    with \<open>is_terminal c\<close> a [of "''. ''"] show ?thesis by simp
  qed
qed

lemma split_sentences_nonempty: "split_sentences s \<noteq> []"
  by (induction s rule: split_sentences.induct) (auto split: option.splits list.splits)

lemma split_sentences_decompose:
  "split_sentences s = p # ps \<Longrightarrow> ps \<noteq> [] \<Longrightarrow>
     \<exists>d rest. s = p @ d \<and> match_delimiter d = Some rest"
proof (induction s arbitrary: p ps rule: split_sentences.induct)
  case 1
  then show ?case by simp
next
  case (2 c cs)
  show ?case
  proof (cases "match_delimiter (c # cs)")
    case (Some rest)
    with "2.prems" have "p = []" by simp
    with Some show ?thesis by auto
  next
    case None
    obtain p' ps' where sp: "split_sentences cs = p' # ps'"
      using split_sentences_nonempty [of cs] by (cases "split_sentences cs") auto
    with None "2.prems" have p: "p = c # p'" and ps: "ps = ps'" by simp_all
    from "2.IH"(1) [OF None sp] ps "2.prems"(2) obtain d rest
      where "cs = p' @ d" "match_delimiter d = Some rest" by blast
    with p show ?thesis by auto
  qed
qed

lemma split_sentences_sealed:
  "p \<in> set (butlast (split_sentences s)) \<Longrightarrow> sealed p"
proof (induction s arbitrary: p rule: split_sentences.induct)
  case 1
  then show ?case by simp
next
  case (2 c cs)
  show ?case
  proof (cases "match_delimiter (c # cs)")
    case (Some rest)
    with "2.prems" split_sentences_nonempty [of rest]
    have "p = [] \<or> p \<in> set (butlast (split_sentences rest))" by (auto simp del: match_delimiter.simps)
    with "2.IH"(2) [OF Some] show ?thesis by auto
  next
    case None
    obtain p' ps' where sp: "split_sentences cs = p' # ps'"
      using split_sentences_nonempty [of cs] by (cases "split_sentences cs") auto
    with None have eq: "split_sentences (c # cs) = (c # p') # ps'" by simp
    show ?thesis
    proof (cases "ps' = []")
      case True
      with eq "2.prems" show ?thesis by (simp del: split_sentences.simps)
    next
      case False
      with eq "2.prems" have cases: "p = c # p' \<or> p \<in> set (butlast ps')"
        by (simp del: split_sentences.simps)
      from False sp have in_tl: "\<And>q. q \<in> set (butlast ps') \<Longrightarrow> q \<in> set (butlast (split_sentences cs))"
        by simp
      from False sp have p'_in: "p' \<in> set (butlast (split_sentences cs))" by simp
      from cases show ?thesis
      proof
        assume "p \<in> set (butlast ps')"
        then show ?thesis using "2.IH"(1) [OF None] in_tl by blast
      next
        assume p: "p = c # p'"
        have s': "sealed p'" using "2.IH"(1) [OF None p'_in] .
        from split_sentences_decompose [OF sp False] obtain d rest
          where cs: "cs = p' @ d" and m: "match_delimiter d = Some rest" by blast
        from None cs have "match_delimiter (c # p' @ d) = None" by simp
        from match_delimiter_seal [OF this m] s' p show ?thesis
          by (simp del: match_delimiter.simps)
      qed
    qed
  qed
qed

lemma split_sentences_resplit:
  "sealed p \<Longrightarrow> split_sentences (p @ ''. '' @ r) = p # split_sentences (dropWhile is_js_space r)"
proof (induction p)
  case Nil
  have "split_sentences (''. '' @ r) = [] # split_sentences (dropWhile is_js_space r)"
    using match_delimiter_dot_space [of r] by (simp del: match_delimiter.simps)
  then show ?case by simp
next
  case (Cons c cs)
  then have n: "match_delimiter (c # cs @ ''. '') = None" and s: "sealed cs"
    by (simp_all del: match_delimiter.simps)
  from match_delimiter_extend [OF n, of "''. '' @ r"]
  have "match_delimiter (c # cs @ ''. '' @ r) = None" by simp
  with Cons.IH [OF s] show ?case by (simp del: match_delimiter.simps)
qed

lemma split_sentences_end:
  "sealed p \<Longrightarrow> split_sentences (p @ ''.'') = [p @ ''.'']"
proof (induction p)
  case Nil
  show ?case by (simp add: is_terminal_def)
next
  case (Cons c cs)
  then have n: "match_delimiter (c # cs @ ''. '') = None" and s: "sealed cs"
    by (simp_all del: match_delimiter.simps)
  from match_delimiter_extend [OF n, of "''.''"]
  have "match_delimiter (c # cs @ ''.'') = None" by simp
  with Cons.IH [OF s] show ?case by (simp del: match_delimiter.simps)
qed

lemma sealed_dropWhile: "sealed p \<Longrightarrow> sealed (dropWhile P p)"
  by (induction p) (auto simp del: match_delimiter.simps)

lemma sealed_last: "sealed p \<Longrightarrow> p \<noteq> [] \<Longrightarrow> \<not> is_terminal (last p)"
proof (induction p)
  case Nil
  then show ?case by simp
next
  case (Cons c cs)
  show ?case
  proof (cases "cs = []")
    case True
    with Cons.prems show ?thesis by (auto simp: is_terminal_def is_js_space_def split: if_splits)
  next
    case False
    with Cons show ?thesis by (simp del: match_delimiter.simps)
  qed
qed

lemma join_sentences_last:
  "ps \<noteq> [] \<Longrightarrow> last ps \<noteq> [] \<Longrightarrow> join_sentences ps \<noteq> [] \<and> last (join_sentences ps) = last (last ps)"
  by (induction ps rule: join_sentences.induct) auto

lemma dropWhile_join:
  assumes "js_trim q \<noteq> []"
  shows "dropWhile is_js_space (join_sentences (q # qs) @ t)
           = join_sentences (dropWhile is_js_space q # qs) @ t"
proof -
  from assms obtain c where "c \<in> set q" "\<not> is_js_space c" by (auto simp: nonblank_iff)
  then have "\<And>u. dropWhile is_js_space (q @ u) = dropWhile is_js_space q @ u"
    by (simp add: dropWhile_append1)
  then show ?thesis by (cases qs) simp_all
qed

lemma nonblank_dropWhile: "js_trim q \<noteq> [] \<Longrightarrow> js_trim (dropWhile is_js_space q) \<noteq> []"
  unfolding nonblank_iff
  by (metis dropWhile_eq_Nil_conv hd_dropWhile hd_in_set)

lemma count_join:
  "sealed p \<Longrightarrow> js_trim p \<noteq> [] \<Longrightarrow> \<forall>q \<in> set qs. sealed q \<and> js_trim q \<noteq> [] \<Longrightarrow>
     length (sentences_of (join_sentences (p # qs) @ ''.'')) = Suc (length qs)"
proof (induction qs arbitrary: p)
  case Nil
  then have "js_trim (p @ ''.'') \<noteq> []" by (auto simp: nonblank_iff)
  with Nil show ?case by (simp add: sentences_of_def split_sentences_end)
next
  case (Cons q qs)
  let ?q = "dropWhile is_js_space q"
  from Cons.prems have q: "sealed q" "js_trim q \<noteq> []" by simp_all
  have "split_sentences (join_sentences (p # q # qs) @ ''.'')
          = split_sentences (p @ ''. '' @ (join_sentences (q # qs) @ ''.''))" by simp
  also have "\<dots> = p # split_sentences (dropWhile is_js_space (join_sentences (q # qs) @ ''.''))"
    using Cons.prems(1) by (rule split_sentences_resplit)
  also have "\<dots> = p # split_sentences (join_sentences (?q # qs) @ ''.'')"
    using dropWhile_join [OF q(2), of qs "''.''"] by (simp only:)
  finally have eq: "split_sentences (join_sentences (p # q # qs) @ ''.'')
      = p # split_sentences (join_sentences (?q # qs) @ ''.'')" .
  have "length (sentences_of (join_sentences (?q # qs) @ ''.'')) = Suc (length qs)"
    using Cons.IH [of ?q] q Cons.prems(3) by (simp add: sealed_dropWhile nonblank_dropWhile)
  with eq Cons.prems(2) show ?case by (simp add: sentences_of_def)
qed

lemma butlast_filter_subset: "set (butlast (filter P xs)) \<subseteq> set (butlast xs)"
proof (induction xs rule: rev_induct)
  case Nil
  show ?case by simp
next
  case (snoc x xs)
  show ?case
  proof (cases "P x")
    case True
    then show ?thesis by auto
  next
    case False
    then have "set (butlast (filter P (xs @ [x]))) = set (butlast (filter P xs))" by simp
    also have "\<dots> \<subseteq> set (filter P xs)" by (auto dest: in_set_butlastD)
    also have "\<dots> \<subseteq> set xs" by auto
    finally show ?thesis by simp
  qed
qed

lemma take_in_butlast:
  assumes "n < length ys" and "p \<in> set (take n ys)"
  shows "p \<in> set (butlast ys)"
proof -
  from assms(1) have "take n ys = take n (butlast ys)" by (simp add: take_butlast)
  with assms(2) show ?thesis by (auto dest: in_set_takeD)
qed

lemma truncated_sealed:
  assumes "n < length (sentences_of text)" and "p \<in> set (take n (sentences_of text))"
  shows "sealed p \<and> js_trim p \<noteq> []"
proof -
  let ?P = "\<lambda>s. js_trim s \<noteq> []"
  have sub: "set (butlast (filter ?P (split_sentences text)))
               \<subseteq> set (butlast (split_sentences text))"
    by (rule butlast_filter_subset)
  from assms have "p \<in> set (butlast (sentences_of text))" by (rule take_in_butlast)
  then have "p \<in> set (butlast (filter ?P (split_sentences text)))"
    by (simp only: sentences_of_def)
  with sub have "p \<in> set (butlast (split_sentences text))" by (rule subsetD)
  then have "sealed p" by (rule split_sentences_sealed)
  moreover from assms(2) have "p \<in> set (sentences_of text)" by (rule in_set_takeD)
  then have "p \<in> set (filter ?P (split_sentences text))" by (simp only: sentences_of_def)
  then have "js_trim p \<noteq> []" by simp
  ultimately show ?thesis by (rule conjI)
qed

lemma enforce_truncates:
  assumes "1 \<le> n" and "n < int (length (sentences_of text))"
  shows "enforceSentenceLimit text n = join_sentences (take (nat n) (sentences_of text)) @ ''.''"
    and "length (sentences_of (enforceSentenceLimit text n)) = nat n"
proof -
  let ?ss = "sentences_of text"
  let ?tr = "take (nat n) ?ss"
  from assms have len: "nat n < length ?ss" and pos: "0 < nat n" by simp_all
  then have ne: "?tr \<noteq> []" by auto
  have all: "\<forall>p \<in> set ?tr. sealed p \<and> js_trim p \<noteq> []"
    using truncated_sealed [OF len] by blast
  from ne have lin: "last ?tr \<in> set ?tr" by simp
  with all have l: "sealed (last ?tr)" "js_trim (last ?tr) \<noteq> []" by auto
  then have lne: "last ?tr \<noteq> []" by (auto simp: js_trim_def)
  from join_sentences_last [OF ne lne] sealed_last [OF l(1) lne]
  have nt: "\<not> is_terminal (last (join_sentences ?tr))" by simp
  have tne: "text \<noteq> []"
  proof
    assume "text = []"
    then have "?ss = []" by (simp add: sentences_of_def js_trim_def)
    with len show False by simp
  qed
  from tne assms nt show e: "enforceSentenceLimit text n = join_sentences ?tr @ ''.''"
    by (simp add: enforceSentenceLimit_def Let_def slice_from_start_def)
  obtain p qs where tr: "?tr = p # qs" using ne by (cases ?tr) auto
  with all have "sealed p" "js_trim p \<noteq> []" "\<forall>q \<in> set qs. sealed q \<and> js_trim q \<noteq> []"
    by auto
  then have "length (sentences_of (join_sentences (p # qs) @ ''.'')) = Suc (length qs)"
    by (rule count_join)
  with tr have "length (sentences_of (join_sentences ?tr @ ''.'')) = length ?tr" by simp
  with e len show "length (sentences_of (enforceSentenceLimit text n)) = nat n" by simp
qed


lemma enforce_unchanged:
  "int (length (sentences_of text)) \<le> n \<Longrightarrow> enforceSentenceLimit text n = text"
  by (simp add: enforceSentenceLimit_def)

lemma sentences_of_example: "sentences_of ''A. B'' = [''A'', ''B'']"
  by (simp add: sentences_of_def is_terminal_def is_js_space_def js_trim_def)

lemma sentences_of_dot: "sentences_of ''.'' = [''.'']"
  by (simp add: sentences_of_def is_terminal_def is_js_space_def js_trim_def)

text \<open>
  C4, as stated, fails for a limit of zero: the summary \<open>A. B\<close> has two sentences, more
  than zero; the result is a single full stop, which the function's own count takes for
  one sentence, not for none.
\<close>

theorem sentence_limit_zero_counterexample:
  "int (length (sentences_of ''A. B'')) > 0
   \<and> enforceSentenceLimit ''A. B'' 0 = ''.''
   \<and> length (sentences_of (enforceSentenceLimit ''A. B'' 0)) = 1"
proof -
  have e: "enforceSentenceLimit ''A. B'' 0 = ''.''"
    by (simp add: enforceSentenceLimit_def sentences_of_example slice_from_start_def)
  show ?thesis unfolding e by (simp add: sentences_of_example sentences_of_dot)
qed

text \<open>
  C4, amended. Sentences are counted as the function counts them: the non-blank pieces
  between the matches of the delimiter expression. For a limit of at least one and a
  summary with more sentences than the limit, the result has exactly as many sentences
  as the limit and ends with terminal punctuation; a summary with at most as many
  sentences as the limit is returned unchanged.
\<close>

theorem sentence_limit:
  "(1 \<le> n \<and> n < int (length (sentences_of text)) \<longrightarrow>
      length (sentences_of (enforceSentenceLimit text n)) = nat n
      \<and> enforceSentenceLimit text n \<noteq> []
      \<and> is_terminal (last (enforceSentenceLimit text n)))
   \<and> (int (length (sentences_of text)) \<le> n \<longrightarrow> enforceSentenceLimit text n = text)"
proof (intro conjI impI)
  assume a: "1 \<le> n \<and> n < int (length (sentences_of text))"
  then show "length (sentences_of (enforceSentenceLimit text n)) = nat n"
    using enforce_truncates(2) by blast
  from a have e: "enforceSentenceLimit text n
      = join_sentences (take (nat n) (sentences_of text)) @ ''.''"
    using enforce_truncates(1) by blast
  show "enforceSentenceLimit text n \<noteq> []" unfolding e by simp
  show "is_terminal (last (enforceSentenceLimit text n))"
    unfolding e by (simp add: is_terminal_def)
next
  assume "int (length (sentences_of text)) \<le> n"
  then show "enforceSentenceLimit text n = text" by (rule enforce_unchanged)
qed

lemma sentences_of_example3:
  "sentences_of ''Hello world! How are you? Fine.'' = [''Hello world'', ''How are you'', ''Fine.'']"
  by (simp add: sentences_of_def is_terminal_def is_js_space_def js_trim_def)

lemma enforce_example3:
  "enforceSentenceLimit ''Hello world! How are you? Fine.'' 2 = ''Hello world. How are you.''"
  by (simp add: enforceSentenceLimit_def sentences_of_example3 slice_from_start_def
      is_terminal_def numeral_2_eq_2)

theorem sentence_limit_witness:
  "(1::int) \<le> 2 \<and> 2 < int (length (sentences_of ''Hello world! How are you? Fine.''))
   \<and> enforceSentenceLimit ''Hello world! How are you? Fine.'' 2 = ''Hello world. How are you.''
   \<and> length (sentences_of ''Hello world. How are you.'') = 2
   \<and> is_terminal (last ''Hello world. How are you.'')
   \<and> int (length (sentences_of ''Hello world! How are you? Fine.'')) \<le> 3
   \<and> enforceSentenceLimit ''Hello world! How are you? Fine.'' 3 = ''Hello world! How are you? Fine.''"
  using sentence_limit [of 2 "''Hello world! How are you? Fine.''"]
    sentence_limit [of 3 "''Hello world! How are you? Fine.''"]
  by (simp add: sentences_of_example3 enforce_example3)


section \<open>File transcription\<close>

lemma on_message_transcript:
  "file_transcript (transcribe_file_on_message m st)
     = (case nonblank_fragment m of Some t \<Rightarrow> t | None \<Rightarrow> file_transcript st)"
  by (auto simp: transcribe_file_on_message_def nonblank_fragment_def fragment_text_def
      js_trim_Nil split: option.splits)

lemma fold_transcript:
  "file_transcript (foldl (\<lambda>st m. transcribe_file_on_message m st) st ms)
     = (if List.map_filter nonblank_fragment ms = [] then file_transcript st
        else last (List.map_filter nonblank_fragment ms))"
proof (induction ms rule: rev_induct)
  case Nil
  show ?case by (simp add: List.map_filter_simps)
next
  case (snoc m ms)
  show ?case
    by (cases "nonblank_fragment m")
       (simp_all add: on_message_transcript snoc List.map_filter_def)
qed

lemma nonblank_fragment_nonempty: "nonblank_fragment m = Some t \<Longrightarrow> t \<noteq> []"
  by (auto simp: nonblank_fragment_def js_trim_Nil split: option.splits if_splits)

text \<open>
  C10, as stated, fails for a fragment whose text is white space only: after the final
  fragment \<open>hello\<close> and an update whose text is one space, the last fragment with
  non-empty text is the second one, but the handler tests the trimmed text, keeps
  \<open>hello\<close>, and \<open>hello\<close> is what is returned.
\<close>

theorem file_transcript_blank_counterexample:
  "last (List.map_filter nonempty_fragment
      [Some (turnInfo ''hello'' ''EndOfTurn'' None), Some (turnInfo '' '' ''Update'' None)])
     = '' ''
   \<and> map_option transcript (transcribe_file
      [Some (turnInfo ''hello'' ''EndOfTurn'' None), Some (turnInfo '' '' ''Update'' None)])
     = Some ''hello''"
  by (simp add: List.map_filter_simps nonempty_fragment_def fragment_text_def turnInfo_def
      transcribe_file_def transcribe_file_on_message_def transcribe_file_on_close_def
      turnInfo_isFinal_def js_trim_def is_js_space_def)

text \<open>
  C10, amended. Every fragment, interim or final, whose text is not blank (not empty
  after trimming) replaces the transcript variable; nothing is ever appended to it. So
  when at least one such fragment has arrived, the transcript returned at the close of
  the upstream socket is the text of the last of them.
\<close>

theorem file_transcript_is_last_fragment:
  assumes "List.map_filter nonblank_fragment ms \<noteq> []"
  shows "map_option transcript (transcribe_file ms)
           = Some (last (List.map_filter nonblank_fragment ms))"
proof -
  let ?ts = "List.map_filter nonblank_fragment ms"
  from assms have "last ?ts \<in> set ?ts" by simp
  then obtain m where "nonblank_fragment m = Some (last ?ts)"
    by (auto simp: List.map_filter_def)
  then have "last ?ts \<noteq> []" by (rule nonblank_fragment_nonempty)
  with assms show ?thesis
    by (simp add: transcribe_file_def transcribe_file_on_close_def fold_transcript)
qed

theorem file_transcript_is_last_fragment_witness:
  "List.map_filter nonblank_fragment
      [Some (turnInfo ''Hello'' ''Update'' None),
       Some (turnInfo ''Hello world'' ''EndOfTurn'' None),
       Some (turnInfo ''Bye'' ''EndOfTurn'' None)] \<noteq> []
   \<and> map_option transcript (transcribe_file
      [Some (turnInfo ''Hello'' ''Update'' None),
       Some (turnInfo ''Hello world'' ''EndOfTurn'' None),
       Some (turnInfo ''Bye'' ''EndOfTurn'' None)]) = Some ''Bye''"
  using file_transcript_is_last_fragment
     [of "[Some (turnInfo ''Hello'' ''Update'' None),
           Some (turnInfo ''Hello world'' ''EndOfTurn'' None),
           Some (turnInfo ''Bye'' ''EndOfTurn'' None)]"]
  by (simp add: List.map_filter_simps nonblank_fragment_def fragment_text_def turnInfo_def
      js_trim_def is_js_space_def)


section \<open>The relay proxy\<close>



text \<open>
  C3. The listener for frames from the client tests \<open>isBinary || Buffer.isBuffer(data)\<close>.
  The socket library, in the versions that pass \<open>isBinary\<close> to the listener, delivers a
  text frame as a \<open>Buffer\<close> with \<open>isBinary\<close> false; the text frame \<open>{}\<close> therefore
  leaves the proxy as a binary frame, not as the text frame it was. The listener for the
  other direction keeps the kind of the frame, which it passes as \<open>{ binary: isBinary }\<close>.
\<close>

theorem relay_text_frame_sent_as_binary:
  "clientWs_on_message base64_decode OPEN (Buffer [123, 125]) False
     = [UpstreamSend \<lparr>binary = True, payload = [123, 125]\<rparr>]
   \<and> deepgramWs_on_message OPEN (Buffer [123, 125]) False
     = [ClientSend \<lparr>binary = False, payload = [123, 125]\<rparr>]"
  by (simp add: clientWs_on_message_def deepgramWs_on_message_def)

text \<open>
  A frame that arrives with the binary flag is forwarded as exactly one binary frame with
  the same bytes, whatever its length: the scenario of a binary frame of 3200 bytes.
\<close>

lemma relay_binary_frame:
  "clientWs_on_message f OPEN (Buffer bs) True = [UpstreamSend \<lparr>binary = True, payload = bs\<rparr>]"
  by (simp add: clientWs_on_message_def)

end
